theory Spec2Isabelle
  imports Main "HOL-Library.Word"
begin

section \<open>Machine types\<close>

text \<open>
  The model follows the 64-bit build: \<open>uint64_t\<close> and \<open>size_t\<close> are both 64-bit
  unsigned integers whose arithmetic wraps around, \<open>DWORD\<close> is 32 bits wide and
  \<open>char\<close> is one byte.
\<close>

type_synonym byte = "8 word"
type_synonym uint64_t = "64 word"
type_synonym size_t = "64 word"
type_synonym DWORD = "32 word"

definition CR :: byte where
  "CR = 13"

definition LF :: byte where
  "LF = 10"

section \<open>The file API of the operating system\<close>

text \<open>
  The reader calls five functions of the Win32 file API. They are not code of the
  repository, so they are modelled from their documented behaviour, as small as the
  reader needs them:
  \<^item> a \<open>world\<close> holds the files by path, the table of handles (a closed handle leaves
    \<open>None\<close> in its slot, and a handle value is never used again), the trace of every
    call made so far, and \<open>healthy\<close>, which says for a trace ending with the current call
    whether that call is served or fails with an I/O error. Nothing is assumed about
    \<open>healthy\<close>: any pattern of disk errors is one of its values;
  \<^item> \<open>CreateFileW\<close> fails for a path that names no file; a file is at most \<open>2^63 - 1\<close>
    bytes long (its size is a signed 64-bit \<open>LARGE_INTEGER\<close>);
  \<^item> the reader opens with \<open>FILE_SHARE_READ\<close> only, so a file's bytes cannot change while
    a handle is open: the handle's entry keeps them;
  \<^item> \<open>SetFilePointerEx\<close> from \<open>FILE_BEGIN\<close> refuses a negative distance;
  \<^item> \<open>ReadFile\<close> reads at the file pointer, stops at the end of the file, and reports
    success also when it read fewer bytes than asked for; a failed call leaves the
    destination untouched.
\<close>

datatype HANDLE = INVALID_HANDLE_VALUE | Handle nat

datatype syscall =
    Call_CreateFileW string
  | Call_GetFileSizeEx HANDLE
  | Call_CloseHandle HANDLE
  | Call_SetFilePointerEx HANDLE uint64_t
  | Call_ReadFile HANDLE DWORD

record open_file =
  of_data :: "byte list"
  of_pos :: nat

record world =
  files :: "string \<Rightarrow> byte list option"
  healthy :: "syscall list \<Rightarrow> bool"
  handles :: "open_file option list"
  trace :: "syscall list"

definition attempt :: "syscall \<Rightarrow> world \<Rightarrow> bool \<times> world" where
  "attempt c w = (let t = trace w @ [c] in (healthy w t, w\<lparr>trace := t\<rparr>))"

fun file_of :: "world \<Rightarrow> HANDLE \<Rightarrow> open_file option" where
  "file_of w INVALID_HANDLE_VALUE = None"
| "file_of w (Handle k) = (if k < length (handles w) then handles w ! k else None)"

fun set_file :: "HANDLE \<Rightarrow> open_file option \<Rightarrow> world \<Rightarrow> world" where
  "set_file INVALID_HANDLE_VALUE f w = w"
| "set_file (Handle k) f w = w\<lparr>handles := (handles w)[k := f]\<rparr>"

definition open_handles :: "world \<Rightarrow> nat list" where
  "open_handles w = filter (\<lambda>k. handles w ! k \<noteq> None) [0..<length (handles w)]"

definition CreateFileW :: "world \<Rightarrow> string \<Rightarrow> HANDLE \<times> world" where
  "CreateFileW w path =
     (let (ok, w1) = attempt (Call_CreateFileW path) w in
      case files w path of
        None \<Rightarrow> (INVALID_HANDLE_VALUE, w1)
      | Some d \<Rightarrow>
          if ok \<and> length d < 2 ^ 63
          then (Handle (length (handles w1)),
                w1\<lparr>handles := handles w1 @ [Some \<lparr>of_data = d, of_pos = 0\<rparr>]\<rparr>)
          else (INVALID_HANDLE_VALUE, w1))"

definition GetFileSizeEx :: "world \<Rightarrow> HANDLE \<Rightarrow> uint64_t option \<times> world" where
  "GetFileSizeEx w h =
     (let (ok, w1) = attempt (Call_GetFileSizeEx h) w in
      case file_of w h of
        None \<Rightarrow> (None, w1)
      | Some f \<Rightarrow> if ok then (Some (of_nat (length (of_data f))), w1) else (None, w1))"

definition CloseHandle :: "world \<Rightarrow> HANDLE \<Rightarrow> world" where
  "CloseHandle w h = set_file h None (snd (attempt (Call_CloseHandle h) w))"

definition SetFilePointerEx :: "world \<Rightarrow> HANDLE \<Rightarrow> uint64_t \<Rightarrow> bool \<times> world" where
  "SetFilePointerEx w h distance =
     (let (ok, w1) = attempt (Call_SetFilePointerEx h distance) w in
      case file_of w h of
        None \<Rightarrow> (False, w1)
      | Some f \<Rightarrow>
          if ok \<and> 0 \<le> sint distance
          then (True, set_file h (Some (f\<lparr>of_pos := unat distance\<rparr>)) w1)
          else (False, w1))"

definition ReadFile :: "world \<Rightarrow> HANDLE \<Rightarrow> byte list \<Rightarrow> DWORD \<Rightarrow> bool \<times> byte list \<times> world" where
  "ReadFile w h dest n =
     (let (ok, w1) = attempt (Call_ReadFile h n) w in
      case file_of w h of
        None \<Rightarrow> (False, dest, w1)
      | Some f \<Rightarrow>
          if ok
          then (let bs = take (unat n) (drop (of_pos f) (of_data f)) in
                (True, bs @ drop (length bs) dest,
                 set_file h (Some (f\<lparr>of_pos := of_pos f + length bs\<rparr>)) w1))
          else (False, dest, w1))"

section \<open>HandleFileReader\<close>

datatype Direction = Right | Left

record HandleFileReader =
  mHandle :: HANDLE
  mFileSize :: uint64_t
  mBuffer :: "byte list"
  mBufferIndex :: size_t
  mBufferSize :: size_t
  mBufferDirection :: Direction

text \<open>The default member initialisers; \<open>mFileSize = -1\<close> is \<open>2^64 - 1\<close>.\<close>

definition HandleFileReader_init :: HandleFileReader where
  "HandleFileReader_init =
     \<lparr>mHandle = INVALID_HANDLE_VALUE, mFileSize = - 1, mBuffer = [],
      mBufferIndex = 0, mBufferSize = 0, mBufferDirection = Right\<rparr>"

definition isopen :: "HandleFileReader \<Rightarrow> bool" where
  "isopen r = (mHandle r \<noteq> INVALID_HANDLE_VALUE)"

text \<open>
  \<open>readnobuffer\<close>: seek, then one \<open>ReadFile\<close> of \<open>(DWORD)size\<close> bytes: the cast keeps
  the low 32 bits of \<open>size\<close>. The number of bytes read is not looked at.
\<close>

definition readnobuffer ::
  "world \<Rightarrow> HandleFileReader \<Rightarrow> byte list \<Rightarrow> uint64_t \<Rightarrow> size_t \<Rightarrow> bool \<times> byte list \<times> world"
where
  "readnobuffer w r dest index sz =
     (if \<not> isopen r then (False, dest, w)
      else
        (let (sought, w1) = SetFilePointerEx w (mHandle r) index in
         if \<not> sought then (False, dest, w1)
         else ReadFile w1 (mHandle r) dest (ucast sz)))"

text \<open>The constructor opens the file; when the size query fails it closes the handle again.\<close>

definition HandleFileReader_new :: "world \<Rightarrow> string \<Rightarrow> HandleFileReader \<times> world" where
  "HandleFileReader_new w szFileName =
     (let (h, w1) = CreateFileW w szFileName;
          r = HandleFileReader_init\<lparr>mHandle := h\<rparr>
      in if h \<noteq> INVALID_HANDLE_VALUE
         then (case GetFileSizeEx w1 h of
                 (Some sz, w2) \<Rightarrow> (r\<lparr>mFileSize := sz\<rparr>, w2)
               | (None, w2) \<Rightarrow> (r\<lparr>mHandle := INVALID_HANDLE_VALUE\<rparr>, CloseHandle w2 h))
         else (r, w1))"

definition HandleFileReader_delete :: "world \<Rightarrow> HandleFileReader \<Rightarrow> HandleFileReader \<times> world" where
  "HandleFileReader_delete w r =
     (if isopen r then (r\<lparr>mHandle := INVALID_HANDLE_VALUE\<rparr>, CloseHandle w (mHandle r))
      else (r, w))"

text \<open>\<open>std::vector::resize\<close>: cut, or pad with zero bytes; what is kept keeps its value.\<close>

definition resize :: "byte list \<Rightarrow> nat \<Rightarrow> byte list" where
  "resize v n = take n v @ replicate (n - length v) 0"

text \<open>
  The copy out of the buffer at the end of \<open>read\<close>. An access outside the buffer is
  undefined behaviour in the release build and an exception of \<open>at\<close> in the debug
  build: \<open>None\<close>. A copy of zero bytes touches nothing.
\<close>

definition copy_out :: "HandleFileReader \<Rightarrow> byte list \<Rightarrow> uint64_t \<Rightarrow> size_t \<Rightarrow> byte list option" where
  "copy_out r dest index sz =
     (let k = unat (index - mBufferIndex r) in
      if sz = 1
      then (if k < length (mBuffer r) then Some (dest[0 := mBuffer r ! k]) else None)
      else if sz = 0 then Some dest
      else if k + unat sz \<le> length (mBuffer r)
      then Some (take (unat sz) (drop k (mBuffer r)) @ drop (unat sz) dest)
      else None)"

text \<open>
  \<open>read\<close> returns the flag, the destination, the reader and the world; \<open>None\<close> stands
  for undefined behaviour (a destination shorter than \<open>size\<close>, or a copy from outside
  the buffer). All sums are 64-bit sums, as in the source.
\<close>

definition read ::
  "world \<Rightarrow> HandleFileReader \<Rightarrow> byte list \<Rightarrow> uint64_t \<Rightarrow> size_t \<Rightarrow>
   (bool \<times> byte list \<times> HandleFileReader \<times> world) option"
where
  "read w r dest index sz =
     (if length dest < unat sz then None
      else if index + sz > mFileSize r then Some (False, dest, r, w)
      else if sz > mBufferSize r
      then (let (ok, dest1, w1) = readnobuffer w r dest index sz in Some (ok, dest1, r, w1))
      else if index < mBufferIndex r \<or> index + sz > mBufferIndex r + of_nat (length (mBuffer r))
      then
        (let bufferSize = min (mBufferSize r) (mFileSize r - index);
             r1 = r\<lparr>mBuffer := resize (mBuffer r) (unat bufferSize), mBufferIndex := index\<rparr>;
             (ok, buf, w1) = readnobuffer w r1 (mBuffer r1) (mBufferIndex r1) (of_nat (length (mBuffer r1)));
             r2 = r1\<lparr>mBuffer := buf\<rparr>
         in if \<not> ok then Some (False, dest, r2, w1)
            else (case copy_out r2 dest index sz of
                    None \<Rightarrow> None
                  | Some dest1 \<Rightarrow> Some (True, dest1, r2, w1)))
      else (case copy_out r dest index sz of
              None \<Rightarrow> None
            | Some dest1 \<Rightarrow> Some (True, dest1, r, w)))"

definition size_of :: "HandleFileReader \<Rightarrow> uint64_t" where
  "size_of r = mFileSize r"

definition setbuffersize :: "HandleFileReader \<Rightarrow> size_t \<Rightarrow> HandleFileReader" where
  "setbuffersize r sz = r\<lparr>mBufferSize := min sz (mFileSize r)\<rparr>"

definition setbufferdirection :: "HandleFileReader \<Rightarrow> Direction \<Rightarrow> HandleFileReader" where
  "setbufferdirection r direction = r\<lparr>mBufferDirection := direction\<rparr>"

text \<open>The helpers of \<open>IBufferedFileReader\<close>.\<close>

definition readchar ::
  "world \<Rightarrow> HandleFileReader \<Rightarrow> uint64_t \<Rightarrow> byte \<Rightarrow> (bool \<times> byte \<times> HandleFileReader \<times> world) option"
where
  "readchar w r index ch =
     (case read w r [ch] index 1 of
        None \<Rightarrow> None
      | Some (ok, dest, r1, w1) \<Rightarrow> Some (ok, (case dest of [] \<Rightarrow> ch | c # _ \<Rightarrow> c), r1, w1))"

definition readstring ::
  "world \<Rightarrow> HandleFileReader \<Rightarrow> uint64_t \<Rightarrow> size_t \<Rightarrow> byte list \<Rightarrow>
   (bool \<times> byte list \<times> HandleFileReader \<times> world) option"
where
  "readstring w r index sz str = read w r (resize str (unat sz)) index sz"

section \<open>FileLines\<close>

record FileLines =
  mLines :: "uint64_t list"
  mReader :: "HandleFileReader option"

definition FileLines_init :: FileLines where
  "FileLines_init = \<lparr>mLines = [], mReader = None\<rparr>"

definition FileLines_isopen :: "FileLines \<Rightarrow> bool" where
  "FileLines_isopen fl = (case mReader fl of None \<Rightarrow> False | Some r \<Rightarrow> isopen r)"

text \<open>
  \<open>open\<close>: the assignment to the \<open>unique_ptr\<close> destroys the reader held before, after
  the new one is built.
\<close>

definition FileLines_open :: "world \<Rightarrow> FileLines \<Rightarrow> string \<Rightarrow> bool \<times> FileLines \<times> world" where
  "FileLines_open w fl szFileName =
     (if FileLines_isopen fl then (False, fl, w)
      else
        (let (r, w1) = HandleFileReader_new w szFileName;
             w2 = (case mReader fl of None \<Rightarrow> w1 | Some old \<Rightarrow> snd (HandleFileReader_delete w1 old))
         in (isopen r, fl\<lparr>mReader := Some r\<rparr>, w2)))"

text \<open>
  The scan of \<open>parse\<close>: the state of the loop is \<open>i\<close>, \<open>curIndex\<close>, \<open>curSize\<close>, the
  lines, the reader and the world. It ends with the flag \<open>False\<close> at the first
  \<open>readchar\<close> that fails. \<open>ch\<close> is not initialised in the source; the model starts it at 0.
\<close>

function parse_loop ::
  "world \<Rightarrow> HandleFileReader \<Rightarrow> uint64_t \<Rightarrow> uint64_t \<Rightarrow> size_t \<Rightarrow> size_t \<Rightarrow> uint64_t list \<Rightarrow>
   (bool \<times> size_t \<times> size_t \<times> uint64_t list \<times> HandleFileReader \<times> world) option"
where
  "parse_loop w r filesize i curIndex curSize lines =
     (if i < filesize
      then (case readchar w r i 0 of
              None \<Rightarrow> None
            | Some (ok, ch, r1, w1) \<Rightarrow>
                if \<not> ok then Some (False, curIndex, curSize, lines, r1, w1)
                else if ch = CR then parse_loop w1 r1 filesize (i + 1) curIndex curSize lines
                else if ch = LF then parse_loop w1 r1 filesize (i + 1) (i + 1) 0 (lines @ [curIndex])
                else parse_loop w1 r1 filesize (i + 1) curIndex (curSize + 1) lines)
      else Some (True, curIndex, curSize, lines, r, w))"
  by pat_completeness auto
termination
proof (relation "measure (\<lambda>(w, r, filesize, i, curIndex, curSize, lines). unat filesize - unat i)")
  show "wf (measure (\<lambda>(w, r, filesize, i, curIndex, curSize, lines). unat filesize - unat i))"
    by simp
next
  fix filesize i :: uint64_t
  assume "i < filesize"
  then have "unat (i + 1) = unat i + 1"
    using unsigned_less [of filesize, where 'a = nat]
    by (simp add: unat_word_ariths word_less_nat_alt)
  moreover have "unat i < unat filesize"
    using \<open>i < filesize\<close> by (simp add: word_less_nat_alt)
  ultimately have "unat filesize - unat (i + 1) < unat filesize - unat i"
    by simp
  then show
    "\<And>w r curIndex curSize lines x2 x y xa ya xb yb.
       ((x2, xb, filesize, i + 1, curIndex, curSize, lines),
        (w, r, filesize, i, curIndex, curSize, lines))
       \<in> measure (\<lambda>(w, r, filesize, i, curIndex, curSize, lines). unat filesize - unat i)"
    and "\<And>w r curIndex curSize lines x2 x y xa ya xb yb.
       ((x2, xb, filesize, i + 1, i + 1, 0, lines @ [curIndex]),
        (w, r, filesize, i, curIndex, curSize, lines))
       \<in> measure (\<lambda>(w, r, filesize, i, curIndex, curSize, lines). unat filesize - unat i)"
    and "\<And>w r curIndex curSize lines x2 x y xa ya xb yb.
       ((x2, xb, filesize, i + 1, curIndex, curSize + 1, lines),
        (w, r, filesize, i, curIndex, curSize, lines))
       \<in> measure (\<lambda>(w, r, filesize, i, curIndex, curSize, lines). unat filesize - unat i)"
    by simp_all
qed

definition parse :: "world \<Rightarrow> FileLines \<Rightarrow> (bool \<times> FileLines \<times> world) option" where
  "parse w fl =
     (case mReader fl of
        None \<Rightarrow> Some (False, fl, w)
      | Some r \<Rightarrow>
          if \<not> isopen r then Some (False, fl, w)
          else
            (let filesize = size_of r;
                 r1 = setbufferdirection r Right;
                 r2 = setbuffersize r1 (10 * 1024 * 1024)
             in case parse_loop w r2 filesize 0 0 0 (mLines fl) of
                  None \<Rightarrow> None
                | Some (ok, curIndex, curSize, lines, r3, w1) \<Rightarrow>
                    if \<not> ok then Some (False, fl\<lparr>mLines := lines, mReader := Some r3\<rparr>, w1)
                    else
                      (let lines1 = (if curSize > 0 then lines @ [curIndex] else lines);
                           lines2 = lines1 @ [filesize + 1]
                       in Some (True, fl\<lparr>mLines := lines2, mReader := Some r3\<rparr>, w1))))"

definition FileLines_size :: "FileLines \<Rightarrow> size_t" where
  "FileLines_size fl = of_nat (length (mLines fl)) - 1"

text \<open>The loop at the end of \<open>operator[]\<close>: drop carriage returns from the back.\<close>

function strip_back :: "byte list \<Rightarrow> byte list" where
  "strip_back result =
     (if result \<noteq> [] \<and> last result = CR then strip_back (butlast result) else result)"
  by pat_completeness auto
termination
  by (relation "measure length") auto

text \<open>
  \<open>operator[]\<close>: an index outside \<open>mLines\<close> and a null reader are undefined behaviour
  (\<open>None\<close>). The flag of \<open>readstring\<close> is dropped, as in the source.
\<close>

definition FileLines_at :: "world \<Rightarrow> FileLines \<Rightarrow> size_t \<Rightarrow> (byte list \<times> FileLines \<times> world) option" where
  "FileLines_at w fl index =
     (if \<not> (unat index < length (mLines fl) \<and> unat (index + 1) < length (mLines fl)) then None
      else
        (let lineStart = mLines fl ! unat index;
             nextLineStart = mLines fl ! unat (index + 1)
         in case mReader fl of
              None \<Rightarrow> None
            | Some r \<Rightarrow>
                (case readstring w r lineStart (nextLineStart - lineStart - 1) [] of
                   None \<Rightarrow> None
                 | Some (ok, result, r1, w1) \<Rightarrow>
                     Some (strip_back result, fl\<lparr>mReader := Some r1\<rparr>, w1))))"

text \<open>
  \<open>SourceView::loadFile\<close> builds a new \<open>FileLines\<close>, opens it and parses it; the
  flag says whether both went well.
\<close>

definition load_lines :: "world \<Rightarrow> string \<Rightarrow> (bool \<times> FileLines \<times> world) option" where
  "load_lines w path =
     (let (opened, fl, w1) = FileLines_open w FileLines_init path
      in if \<not> FileLines_isopen fl then Some (False, fl, w1) else parse w1 fl)"

section \<open>Worlds to run the code in\<close>

text \<open>A world in which nothing has happened yet, and a file system with one file, \<open>f\<close>.\<close>

definition boot :: "(string \<Rightarrow> byte list option) \<Rightarrow> (syscall list \<Rightarrow> bool) \<Rightarrow> world" where
  "boot fs ok = \<lparr>files = fs, healthy = ok, handles = [], trace = []\<rparr>"

definition one_file :: "byte list \<Rightarrow> string \<Rightarrow> byte list option" where
  "one_file d = (\<lambda>p. if p = ''f'' then Some d else None)"

definition sound :: "syscall list \<Rightarrow> bool" where
  "sound t = True"

section \<open>Evaluation\<close>

declare parse_loop.simps [simp del]
declare strip_back.simps [simp del]

lemmas os_defs = boot_def one_file_def sound_def attempt_def CreateFileW_def GetFileSizeEx_def
  CloseHandle_def SetFilePointerEx_def ReadFile_def

lemmas reader_defs = HandleFileReader_init_def isopen_def readnobuffer_def HandleFileReader_new_def
  HandleFileReader_delete_def resize_def copy_out_def read_def size_of_def setbuffersize_def
  setbufferdirection_def readchar_def readstring_def

lemmas lines_defs = FileLines_init_def FileLines_isopen_def FileLines_open_def parse_def
  FileLines_size_def FileLines_at_def load_lines_def CR_def LF_def

section \<open>What a read does to its destination\<close>

lemma unat_ucast_le: "unat (ucast (sz :: size_t) :: DWORD) \<le> unat sz"
  by (simp add: unsigned_ucast_eq)

lemma ReadFile_length:
  "ReadFile w h dest n = (ok, dest', w') \<Longrightarrow> unat n \<le> length dest \<Longrightarrow>
   length dest' = length dest \<and> (\<not> ok \<longrightarrow> dest' = dest)"
  by (auto simp: ReadFile_def attempt_def Let_def split: option.splits if_splits)

lemma readnobuffer_length:
  "readnobuffer w r dest index sz = (ok, dest', w') \<Longrightarrow> unat sz \<le> length dest \<Longrightarrow>
   length dest' = length dest \<and> (\<not> ok \<longrightarrow> dest' = dest)"
  using unat_ucast_le [of sz]
  by (auto simp: readnobuffer_def Let_def split: if_splits prod.splits dest!: ReadFile_length)

lemma copy_out_length:
  "copy_out r dest index sz = Some dest' \<Longrightarrow> unat sz \<le> length dest \<Longrightarrow>
   length dest' = length dest"
  by (auto simp: copy_out_def Let_def split: if_splits)

lemma read_length:
  assumes "read w r dest index sz = Some (ok, dest', r', w')"
  shows "length dest' = length dest \<and> (\<not> ok \<longrightarrow> dest' = dest)"
  using assms
  by (auto simp: read_def Let_def split: if_splits option.splits prod.splits
      dest!: readnobuffer_length copy_out_length)

text \<open>
  C10. Whenever \<open>readstring\<close> returns, with either flag, the string is \<open>size\<close> bytes long.
  After a failed read it is the resized string (cut to \<open>size\<close>, or padded with zero
  bytes), not the string the caller passed in.
\<close>

theorem readstring_length:
  assumes "readstring w r index sz str = Some (ok, str', r', w')"
  shows "length str' = unat sz \<and> (\<not> ok \<longrightarrow> str' = resize str (unat sz))"
  using read_length [OF assms [unfolded readstring_def]]
  by (simp add: resize_def)

lemma replicate_two: "replicate 2 x = [x, x]"
  by (simp add: numeral_2_eq_2)

theorem readstring_length_witness:
  "readstring (boot (one_file []) sound) HandleFileReader_init 0 3 [7] =
     Some (False, [7, 0, 0], HandleFileReader_init, boot (one_file []) sound)
   \<and> length [7 :: byte, 0, 0] = unat (3 :: size_t)
   \<and> [7 :: byte, 0, 0] = resize [7] (unat (3 :: size_t))"
proof -
  have run: "readstring (boot (one_file []) sound) HandleFileReader_init 0 3 [7] =
     Some (False, [7, 0, 0], HandleFileReader_init, boot (one_file []) sound)"
    by (simp add: reader_defs os_defs replicate_two)
  from readstring_length [OF run] show ?thesis
    using run by (simp add: resize_def replicate_two)
qed

section \<open>Opening\<close>

lemma open_handles_append:
  "open_handles (w\<lparr>handles := handles w @ [x]\<rparr>) =
     open_handles w @ (if x = None then [] else [length (handles w)])"
proof -
  have "filter (\<lambda>k. (handles w @ [x]) ! k \<noteq> None) [0..<length (handles w)] =
        filter (\<lambda>k. handles w ! k \<noteq> None) [0..<length (handles w)]"
    by (rule filter_cong) (auto simp: nth_append)
  then show ?thesis
    by (simp add: open_handles_def nth_append)
qed

lemma open_handles_trace [simp]: "open_handles (w\<lparr>trace := t\<rparr>) = open_handles w"
  by (simp add: open_handles_def)

lemma close_last:
  "(xs @ [x])[length xs := y] = xs @ [y]"
  by (simp add: list_update_append)

text \<open>
  C7. When the file cannot be opened (\<open>CreateFileW\<close> gives no handle) or its size cannot
  be determined (\<open>GetFileSizeEx\<close> fails on the handle that \<open>CreateFileW\<close> gave), the
  constructor leaves the reader closed, \<open>open\<close> returns false and \<open>isopen\<close> is false
  afterwards. No handle is left open: the handles open in the world are those that were
  open before, and the handle \<open>CreateFileW\<close> gave, if it gave one, is closed again.
\<close>

theorem failed_open_leaves_no_handle:
  assumes "CreateFileW w path = (h, w1)"
    and "h = INVALID_HANDLE_VALUE \<or> fst (GetFileSizeEx w1 h) = None"
    and "HandleFileReader_new w path = (r, w')"
    and "\<not> FileLines_isopen fl0" and "FileLines_open w fl0 path = (ok, fl, w'')"
  shows "\<not> isopen r \<and> \<not> ok \<and> \<not> FileLines_isopen fl \<and> w'' = w' \<and>
         open_handles w' = open_handles w \<and> file_of w' h = None"
proof -
  have core: "\<not> isopen r \<and> open_handles w' = open_handles w \<and> file_of w' h = None"
  proof (cases h)
    case INVALID_HANDLE_VALUE
    then have "w' = w1" and "r = HandleFileReader_init"
      using assms(1,3) by (simp_all add: HandleFileReader_new_def HandleFileReader_init_def)
    moreover have "open_handles w1 = open_handles w"
      using assms(1) INVALID_HANDLE_VALUE
      by (auto simp: CreateFileW_def attempt_def Let_def split: option.splits if_splits)
    ultimately show ?thesis
      using INVALID_HANDLE_VALUE by (simp add: isopen_def HandleFileReader_init_def)
  next
    case (Handle k)
    then obtain d where d: "files w path = Some d"
      and k: "k = length (handles w)"
      and w1: "w1 = w\<lparr>trace := trace w @ [Call_CreateFileW path],
                      handles := handles w @ [Some \<lparr>of_data = d, of_pos = 0\<rparr>]\<rparr>"
      using assms(1)
      by (auto simp: CreateFileW_def attempt_def Let_def split: option.splits if_splits)
    have failed: "fst (GetFileSizeEx w1 h) = None"
      using assms(2) Handle by simp
    then have new: "r = HandleFileReader_init" "w' = CloseHandle (snd (GetFileSizeEx w1 h)) h"
      using assms(1,3) Handle
      by (cases "GetFileSizeEx w1 h"; simp add: HandleFileReader_new_def HandleFileReader_init_def)+
    have "snd (GetFileSizeEx w1 h) = w1\<lparr>trace := trace w1 @ [Call_GetFileSizeEx h]\<rparr>"
      by (auto simp: GetFileSizeEx_def attempt_def Let_def split: option.splits)
    then have hs: "handles w' = handles w @ [None]"
      using new(2) w1 k Handle by (simp add: CloseHandle_def attempt_def Let_def close_last)
    then have "open_handles w' = open_handles w"
      using open_handles_append [of w None] by (simp add: open_handles_def)
    moreover have "file_of w' h = None"
      using hs Handle k by simp
    ultimately show ?thesis
      using new(1) by (simp add: isopen_def HandleFileReader_init_def)
  qed
  have old: "(case mReader fl0 of None \<Rightarrow> w' | Some old \<Rightarrow> snd (HandleFileReader_delete w' old)) = w'"
    using assms(4)
    by (simp add: FileLines_isopen_def HandleFileReader_delete_def split: option.splits)
  have "ok = isopen r" and "fl = fl0\<lparr>mReader := Some r\<rparr>" and "w'' = w'"
    using assms(3,4,5) old by (auto simp: FileLines_open_def Let_def)
  then show ?thesis
    using core by (simp add: FileLines_isopen_def)
qed

text \<open>A world in which the size query fails, and the file \<open>f\<close> of one line feed in it.\<close>

definition size_query_fails :: "syscall list \<Rightarrow> bool" where
  "size_query_fails t = (case last t of Call_GetFileSizeEx h \<Rightarrow> False | _ \<Rightarrow> True)"

definition unsized_created :: world where
  "unsized_created =
     \<lparr>files = one_file [LF], healthy = size_query_fails,
      handles = [Some \<lparr>of_data = [LF], of_pos = 0\<rparr>], trace = [Call_CreateFileW ''f'']\<rparr>"

definition unsized_closed :: world where
  "unsized_closed =
     \<lparr>files = one_file [LF], healthy = size_query_fails, handles = [None],
      trace = [Call_CreateFileW ''f'', Call_GetFileSizeEx (Handle 0), Call_CloseHandle (Handle 0)]\<rparr>"

theorem failed_open_leaves_no_handle_witness:
  "CreateFileW (boot (one_file [LF]) size_query_fails) ''f'' = (Handle 0, unsized_created) \<and>
   fst (GetFileSizeEx unsized_created (Handle 0)) = None \<and>
   HandleFileReader_new (boot (one_file [LF]) size_query_fails) ''f'' =
     (HandleFileReader_init, unsized_closed) \<and>
   \<not> FileLines_isopen FileLines_init \<and>
   FileLines_open (boot (one_file [LF]) size_query_fails) FileLines_init ''f'' =
     (False, FileLines_init\<lparr>mReader := Some HandleFileReader_init\<rparr>, unsized_closed) \<and>
   \<not> isopen HandleFileReader_init \<and>
   \<not> FileLines_isopen (FileLines_init\<lparr>mReader := Some HandleFileReader_init\<rparr>) \<and>
   open_handles unsized_closed = open_handles (boot (one_file [LF]) size_query_fails) \<and>
   file_of unsized_closed (Handle 0) = None"
proof -
  have created: "CreateFileW (boot (one_file [LF]) size_query_fails) ''f'' =
      (Handle 0, unsized_created)"
    by (simp add: os_defs size_query_fails_def unsized_created_def Let_def)
  have unsized: "Handle 0 = INVALID_HANDLE_VALUE \<or>
      fst (GetFileSizeEx unsized_created (Handle 0)) = None"
    by (simp add: os_defs size_query_fails_def unsized_created_def Let_def)
  have new: "HandleFileReader_new (boot (one_file [LF]) size_query_fails) ''f'' =
      (HandleFileReader_init, unsized_closed)"
    by (simp add: os_defs reader_defs size_query_fails_def unsized_closed_def Let_def)
  have fresh: "\<not> FileLines_isopen FileLines_init"
    by (simp add: lines_defs)
  have opened: "FileLines_open (boot (one_file [LF]) size_query_fails) FileLines_init ''f'' =
      (False, FileLines_init\<lparr>mReader := Some HandleFileReader_init\<rparr>, unsized_closed)"
    by (simp add: os_defs reader_defs lines_defs size_query_fails_def unsized_closed_def Let_def)
  from failed_open_leaves_no_handle [OF created unsized new fresh opened] show ?thesis
    using created unsized new fresh opened by simp
qed

text \<open>The other way round: when both calls are served, the reader is open.\<close>

lemma served_open_is_open:
  assumes "CreateFileW w path = (h, w1)" and "h \<noteq> INVALID_HANDLE_VALUE"
    and "fst (GetFileSizeEx w1 h) = Some n" and "HandleFileReader_new w path = (r, w')"
  shows "isopen r \<and> mHandle r = h \<and> size_of r = n"
  using assms
  by (cases "GetFileSizeEx w1 h")
     (auto simp: HandleFileReader_new_def isopen_def size_of_def HandleFileReader_init_def)

section \<open>The scenarios of the specification\<close>

text \<open>
  C1. The file with the two bytes \<open>LF LF\<close>, opened and parsed in a world without I/O
  errors: the offset table is \<open>[0, 1, 3]\<close>, there are two lines, line 0 is empty, and
  line 1 is the one byte \<open>LF\<close>: the span of the last line runs to the sentinel
  \<open>filesize + 1\<close>, one byte behind its terminator.
\<close>

theorem two_linefeeds_last_line:
  "(case load_lines (boot (one_file [LF, LF]) sound) ''f'' of
      None \<Rightarrow> False
    | Some (ok, fl, w) \<Rightarrow>
        ok \<and> mLines fl = [0, 1, 3] \<and> FileLines_size fl = 2 \<and>
        map_option fst (FileLines_at w fl 0) = Some [] \<and>
        map_option fst (FileLines_at w fl 1) = Some [LF])"
  by (simp add: os_defs reader_defs lines_defs Let_def parse_loop.simps strip_back.simps)

section \<open>The range check\<close>

text \<open>
  The check \<open>index + size > mFileSize\<close> is a 64-bit comparison. Where the sum does not
  wrap around it rejects the request before anything else happens: the reader and the
  world, and with it the trace of calls, are as before.
\<close>

lemma read_rejects_out_of_range:
  assumes "unat (mFileSize r) < unat index + unat sz" and "unat index + unat sz < 2 ^ 64"
    and "unat sz \<le> length dest"
  shows "read w r dest index sz = Some (False, dest, r, w)"
proof -
  have "unat (index + sz) = unat index + unat sz"
    using assms(2) by (simp add: unat_word_ariths take_bit_nat_eq_self)
  then have "mFileSize r < index + sz"
    using assms(1) by (simp add: word_less_nat_alt)
  then show ?thesis
    using assms(3) by (simp add: read_def)
qed

text \<open>
  C6. The file \<open>ab\<close>, buffer size 2, and the request \<open>index = 2^64 - 1\<close>, \<open>size = 2\<close>:
  the 64-bit sum is 1, so the range check lets the request through. The first call
  moves the window to the index, tries to seek (the call is in the trace) and fails;
  the second call finds the request inside the window and returns true, with the two
  zero bytes of the buffer that was never filled.
\<close>

theorem wrapped_sum_passes_range_check:
  "(case HandleFileReader_new (boot (one_file [97, 98]) sound) ''f'' of
      (r, w) \<Rightarrow>
        isopen r \<and> size_of r = 2 \<and> unat (size_of r) < unat (- 1 :: uint64_t) + unat (2 :: size_t) \<and>
        (case read w (setbuffersize r 2) [1, 1] (- 1) 2 of
           None \<Rightarrow> False
         | Some (ok1, dest1, r1, w1) \<Rightarrow>
             \<not> ok1 \<and> trace w1 = trace w @ [Call_SetFilePointerEx (Handle 0) (- 1)] \<and>
             read w1 r1 [1, 1] (- 1) 2 = Some (True, [0, 0], r1, w1)))"
  by (simp add: os_defs reader_defs Let_def replicate_two unsigned_minus_1_eq_mask mask_eq_exp_minus_1)



section \<open>Sequences of requests\<close>

datatype request =
    Req_open string
  | Req_setbuffersize size_t
  | Req_setbufferdirection Direction
  | Req_read "byte list" uint64_t size_t

datatype reply =
    Rep_open bool
  | Rep_done
  | Rep_read bool "byte list"
  | Rep_undefined

text \<open>
  A request to open replaces the reader: the old one is destroyed and a new one built,
  as \<open>loadFile\<close> does. A read request carries the destination as the caller passes it.
\<close>

fun serve :: "HandleFileReader \<times> world \<Rightarrow> request \<Rightarrow> (reply \<times> HandleFileReader \<times> world) option" where
  "serve (r, w) (Req_open path) =
     (let (r0, w0) = HandleFileReader_delete w r;
          (r1, w1) = HandleFileReader_new w0 path
      in Some (Rep_open (isopen r1), r1, w1))"
| "serve (r, w) (Req_setbuffersize n) = Some (Rep_done, setbuffersize r n, w)"
| "serve (r, w) (Req_setbufferdirection d) = Some (Rep_done, setbufferdirection r d, w)"
| "serve (r, w) (Req_read dest index sz) =
     (case read w r dest index sz of
        None \<Rightarrow> None
      | Some (ok, dest1, r1, w1) \<Rightarrow> Some (Rep_read ok dest1, r1, w1))"

text \<open>The replies of a run, and the state it ends in; undefined behaviour ends the run.\<close>

fun run :: "HandleFileReader \<times> world \<Rightarrow> request list \<Rightarrow> reply list \<times> (HandleFileReader \<times> world) option" where
  "run s [] = ([], Some s)"
| "run s (q # qs) =
     (case serve s q of
        None \<Rightarrow> ([Rep_undefined], None)
      | Some (rep, s1) \<Rightarrow> (case run s1 qs of (reps, s2) \<Rightarrow> (rep # reps, s2)))"

fun with_direction :: "Direction \<Rightarrow> request \<Rightarrow> request" where
  "with_direction d (Req_setbufferdirection x) = Req_setbufferdirection d"
| "with_direction d q = q"

definition forget :: "HandleFileReader \<Rightarrow> HandleFileReader" where
  "forget r = r\<lparr>mBufferDirection := Right\<rparr>"

lemma readnobuffer_handle:
  "mHandle r1 = mHandle r2 \<Longrightarrow> readnobuffer w r1 dest index sz = readnobuffer w r2 dest index sz"
  by (simp add: readnobuffer_def isopen_def cong: if_cong split: prod.splits)

lemma readnobuffer_updates [simp]:
  "readnobuffer w (r\<lparr>mBufferDirection := d\<rparr>) = readnobuffer w r"
  "readnobuffer w (r\<lparr>mBuffer := b\<rparr>) = readnobuffer w r"
  "readnobuffer w (r\<lparr>mBufferIndex := i\<rparr>) = readnobuffer w r"
  "readnobuffer w (r\<lparr>mBufferSize := n\<rparr>) = readnobuffer w r"
  by (intro ext readnobuffer_handle, simp)+

lemma copy_out_window:
  "mBuffer r1 = mBuffer r2 \<Longrightarrow> mBufferIndex r1 = mBufferIndex r2 \<Longrightarrow>
   copy_out r1 dest index sz = copy_out r2 dest index sz"
  by (simp add: copy_out_def cong: if_cong)

lemma copy_out_updates [simp]:
  "copy_out (r\<lparr>mBufferDirection := d\<rparr>) = copy_out r"
  "copy_out (r\<lparr>mBufferDirection := d, mBufferIndex := i, mBuffer := b\<rparr>) =
     copy_out (r\<lparr>mBufferIndex := i, mBuffer := b\<rparr>)"
  "copy_out (r\<lparr>mBufferSize := n\<rparr>) = copy_out r"
  by (intro ext copy_out_window, simp, simp)+

lemma read_direction:
  "read w (r\<lparr>mBufferDirection := d\<rparr>) dest index sz =
     map_option (\<lambda>(ok, dest1, r1, w1). (ok, dest1, r1\<lparr>mBufferDirection := d\<rparr>, w1))
       (read w r dest index sz)"
  unfolding read_def
  by (simp add: Let_def split: prod.splits option.splits)


lemma forget_eq_fields:
  assumes "forget r1 = forget r2"
  shows "mHandle r1 = mHandle r2" "mFileSize r1 = mFileSize r2" "mBuffer r1 = mBuffer r2"
    "mBufferIndex r1 = mBufferIndex r2" "mBufferSize r1 = mBufferSize r2"
proof -
  have "mHandle (forget r1) = mHandle (forget r2)" "mFileSize (forget r1) = mFileSize (forget r2)"
    "mBuffer (forget r1) = mBuffer (forget r2)" "mBufferIndex (forget r1) = mBufferIndex (forget r2)"
    "mBufferSize (forget r1) = mBufferSize (forget r2)"
    using assms by simp_all
  then show "mHandle r1 = mHandle r2" "mFileSize r1 = mFileSize r2" "mBuffer r1 = mBuffer r2"
    "mBufferIndex r1 = mBufferIndex r2" "mBufferSize r1 = mBufferSize r2"
    by (simp_all add: forget_def)
qed

lemma read_forget:
  "read w r dest index sz =
     map_option (\<lambda>(ok, dest1, r1, w1). (ok, dest1, r1\<lparr>mBufferDirection := mBufferDirection r\<rparr>, w1))
       (read w (forget r) dest index sz)"
proof -
  have "r = (forget r)\<lparr>mBufferDirection := mBufferDirection r\<rparr>"
    by (simp add: forget_def)
  then show ?thesis
    using read_direction [where w = w and r = "forget r" and d = "mBufferDirection r"
        and dest = dest and index = index and sz = sz]
    by simp
qed

definition blind :: "(reply \<times> HandleFileReader \<times> world) option \<Rightarrow> (reply \<times> HandleFileReader \<times> world) option" where
  "blind = map_option (\<lambda>(rep, r, w). (rep, forget r, w))"

lemma forget_idem [simp]: "forget (r\<lparr>mBufferDirection := d\<rparr>) = forget r"
  by (simp add: forget_def)

lemma serve_direction:
  assumes "forget r1 = forget r2"
  shows "blind (serve (r1, w) q) = blind (serve (r2, w) (with_direction d q))"
proof (cases q)
  case (Req_open path)
  have "snd (HandleFileReader_delete w r1) = snd (HandleFileReader_delete w r2)"
    using forget_eq_fields(1) [OF assms]
    by (simp add: HandleFileReader_delete_def isopen_def)
  then show ?thesis
    using Req_open by (simp add: blind_def case_prod_beta)
next
  case (Req_setbuffersize n)
  have "forget (setbuffersize r1 n) = (forget r1)\<lparr>mBufferSize := min n (mFileSize r1)\<rparr>"
    and "forget (setbuffersize r2 n) = (forget r2)\<lparr>mBufferSize := min n (mFileSize r2)\<rparr>"
    by (simp_all add: setbuffersize_def forget_def)
  then have "forget (setbuffersize r1 n) = forget (setbuffersize r2 n)"
    using assms forget_eq_fields(2) [OF assms] by simp
  then show ?thesis
    using Req_setbuffersize by (simp add: blind_def)
next
  case (Req_setbufferdirection x)
  then show ?thesis
    using assms by (simp add: blind_def setbufferdirection_def)
next
  case (Req_read dest index sz)
  have "read w (forget r1) dest index sz = read w (forget r2) dest index sz"
    using assms by simp
  then show ?thesis
    using Req_read
    by (simp add: blind_def read_forget [of w r1] read_forget [of w r2] option.map_comp comp_def
        case_prod_beta split: option.splits)
qed

lemma run_direction:
  "forget r1 = forget r2 \<Longrightarrow>
   fst (run (r1, w) qs) = fst (run (r2, w) (map (with_direction d) qs))"
proof (induction qs arbitrary: r1 r2 w)
  case Nil
  then show ?case by simp
next
  case (Cons q qs)
  have same: "blind (serve (r1, w) q) = blind (serve (r2, w) (with_direction d q))"
    by (rule serve_direction) (rule Cons.prems)
  show ?case
  proof (cases "serve (r1, w) q")
    case None
    then have "serve (r2, w) (with_direction d q) = None"
      using same by (simp add: blind_def)
    then show ?thesis
      using None by simp
  next
    case (Some a)
    obtain rep r1' w1 where a: "a = (rep, r1', w1)"
      by (cases a)
    show ?thesis
    proof (cases "serve (r2, w) (with_direction d q)")
      case None
      then show ?thesis
        using same Some by (simp add: blind_def)
    next
      case b: (Some b)
      obtain rep2 r2' w2 where b': "b = (rep2, r2', w2)"
        by (cases b)
      have eq: "rep2 = rep" "w2 = w1" and f: "forget r1' = forget r2'"
        using same Some a b b' by (simp_all add: blind_def)
      show ?thesis
        using Some a b b' eq Cons.IH [OF f, of w1] by (simp add: case_prod_beta)
    qed
  qed
qed

text \<open>
  C8. Any sequence of requests, run once with every direction set to \<open>Left\<close> and once
  with every direction set to \<open>Right\<close> (the reader's own direction at the start
  included), gives the same replies: the same flags and the same bytes.
\<close>

theorem direction_is_not_observable:
  "fst (run (setbufferdirection r Left, w) (map (with_direction Left) qs)) =
   fst (run (setbufferdirection r Right, w) (map (with_direction Right) qs))"
proof -
  have "fst (run (r, w) qs) = fst (run (setbufferdirection r d, w) (map (with_direction d) qs))" for d
    by (rule run_direction) (simp add: setbufferdirection_def)
  from this [of Left] this [of Right] show ?thesis
    by simp
qed

section \<open>64-bit arithmetic without wrap-around\<close>

lemma unat_plus:
  "unat a + unat b < 2 ^ 64 \<Longrightarrow> unat (a + b) = unat a + unat (b :: uint64_t)"
  using unat_add_lem [of a b] by simp

lemma unat_of_nat_len:
  "n < 2 ^ 64 \<Longrightarrow> unat (of_nat n :: uint64_t) = n"
  by (simp add: unat_of_nat)

lemma unat_minus:
  "unat b \<le> unat a \<Longrightarrow> unat (a - b) = unat a - unat (b :: uint64_t)"
  by (simp add: unat_sub word_le_nat_alt)

lemma unat_succ:
  "unat (i :: uint64_t) < n \<Longrightarrow> n < 2 ^ 64 \<Longrightarrow> unat (i + 1) = unat i + 1"
  by (simp add: unat_plus)

lemma top_bit_clear:
  assumes "unat (x :: uint64_t) < 2 ^ 63"
  shows "\<not> bit x 63"
proof -
  have "\<not> bit (unat x) 63"
    using assms by (simp add: bit_iff_odd)
  then show ?thesis
    by (simp add: bit_unsigned_iff)
qed

lemma sint_nonneg:
  assumes "unat (x :: uint64_t) < 2 ^ 63"
  shows "0 \<le> sint x"
  using top_bit_clear [OF assms] bit_last_iff [of x] by simp

lemma unat_ucast_small:
  "unat (sz :: size_t) < 2 ^ 32 \<Longrightarrow> unat (ucast sz :: DWORD) = unat sz"
  by (simp add: unsigned_ucast_eq take_bit_nat_eq_self)

section \<open>A reader and its file\<close>

text \<open>
  \<open>attached w r d\<close>: the reader's handle is open in the world on a file with the
  bytes \<open>d\<close>, and \<open>mFileSize\<close> is their number. \<open>window_ok r d\<close>: the buffer holds the
  bytes of the file from \<open>mBufferIndex\<close> on.
\<close>

definition attached :: "world \<Rightarrow> HandleFileReader \<Rightarrow> byte list \<Rightarrow> bool" where
  "attached w r d =
     (case file_of w (mHandle r) of
        None \<Rightarrow> False
      | Some f \<Rightarrow> of_data f = d \<and> mFileSize r = of_nat (length d) \<and> length d < 2 ^ 63)"

definition window_ok :: "HandleFileReader \<Rightarrow> byte list \<Rightarrow> bool" where
  "window_ok r d =
     (unat (mBufferIndex r) + length (mBuffer r) \<le> length d \<and>
      mBuffer r = take (length (mBuffer r)) (drop (unat (mBufferIndex r)) d))"

text \<open>\<open>served w cs\<close>: the calls \<open>cs\<close>, made now and in this order, would all be served.\<close>

fun served :: "world \<Rightarrow> syscall list \<Rightarrow> bool" where
  "served w [] = True"
| "served w (c # cs) = (healthy w (trace w @ [c]) \<and> served (w\<lparr>trace := trace w @ [c]\<rparr>) cs)"


text \<open>\<open>later w w'\<close>: \<open>w'\<close> is \<open>w\<close> some calls later.\<close>

definition later :: "world \<Rightarrow> world \<Rightarrow> bool" where
  "later w w' = (files w' = files w \<and> healthy w' = healthy w \<and> (\<exists>cs. trace w' = trace w @ cs))"

lemma later_refl [simp]: "later w w"
  by (simp add: later_def)

lemma later_trans: "later w w1 \<Longrightarrow> later w1 w2 \<Longrightarrow> later w w2"
  by (auto simp: later_def)



lemma file_of_trace [simp]: "file_of (w\<lparr>trace := t\<rparr>) h = file_of w h"
  by (cases h) simp_all

lemma file_of_set_file:
  "file_of w h = Some f \<Longrightarrow> file_of (set_file h x w) h = x"
  by (cases h) (simp_all split: if_splits)

lemma set_file_fields [simp]:
  "trace (set_file h x w) = trace w" "healthy (set_file h x w) = healthy w"
  "files (set_file h x w) = files w"
  by (cases h; simp)+

lemma SetFilePointerEx_facts:
  assumes "SetFilePointerEx w h p = (ok, w')" and "file_of w h = Some f"
  shows "later w w'" and "trace w' = trace w @ [Call_SetFilePointerEx h p]"
    and "ok \<Longrightarrow> file_of w' h = Some (f\<lparr>of_pos := unat p\<rparr>)"
    and "\<not> ok \<Longrightarrow> file_of w' h = Some f"
    and "ok \<longleftrightarrow> healthy w (trace w @ [Call_SetFilePointerEx h p]) \<and> 0 \<le> sint p"
  using assms
  by (auto simp: SetFilePointerEx_def attempt_def Let_def later_def file_of_set_file
      split: if_splits)

lemma ReadFile_facts:
  assumes "ReadFile w h dest n = (ok, dest', w')" and "file_of w h = Some f"
  shows "later w w'" and "trace w' = trace w @ [Call_ReadFile h n]"
    and "\<exists>f'. file_of w' h = Some f' \<and> of_data f' = of_data f"
    and "ok \<Longrightarrow> dest' = take (unat n) (drop (of_pos f) (of_data f)) @
                 drop (length (take (unat n) (drop (of_pos f) (of_data f)))) dest"
    and "\<not> ok \<Longrightarrow> dest' = dest"
    and "ok \<longleftrightarrow> healthy w (trace w @ [Call_ReadFile h n])"
  using assms
  by (auto simp: ReadFile_def attempt_def Let_def later_def file_of_set_file
      split: if_splits)


section \<open>One read on a reader that is attached to its file\<close>

definition in_window :: "HandleFileReader \<Rightarrow> uint64_t \<Rightarrow> size_t \<Rightarrow> bool" where
  "in_window r index sz =
     (\<not> (index < mBufferIndex r \<or> index + sz > mBufferIndex r + of_nat (length (mBuffer r))))"

text \<open>The calls \<open>read\<close> makes, by the path it takes.\<close>

definition seek_and_read :: "HandleFileReader \<Rightarrow> uint64_t \<Rightarrow> size_t \<Rightarrow> syscall list" where
  "seek_and_read r index sz =
     [Call_SetFilePointerEx (mHandle r) index, Call_ReadFile (mHandle r) (ucast sz)]"

definition read_calls :: "HandleFileReader \<Rightarrow> uint64_t \<Rightarrow> size_t \<Rightarrow> syscall list" where
  "read_calls r index sz =
     (if index + sz > mFileSize r then []
      else if sz > mBufferSize r then seek_and_read r index sz
      else if in_window r index sz then []
      else seek_and_read r index (min (mBufferSize r) (mFileSize r - index)))"

lemma attached_isopen: "attached w r d \<Longrightarrow> isopen r"
  by (auto simp: attached_def isopen_def split: option.splits)

lemma attached_update [simp]:
  "attached w (r\<lparr>mBuffer := b\<rparr>) d = attached w r d"
  "attached w (r\<lparr>mBufferIndex := i\<rparr>) d = attached w r d"
  "attached w (r\<lparr>mBufferSize := n\<rparr>) d = attached w r d"
  "attached w (r\<lparr>mBufferDirection := x\<rparr>) d = attached w r d"
  by (simp_all add: attached_def split: option.splits)

lemma readnobuffer_facts:
  assumes run: "readnobuffer w r dest index sz = (ok, dest', w')" and att: "attached w r d"
  shows "later w w'" and "attached w' r d"
    and "ok \<Longrightarrow> dest' = take (unat (ucast sz :: DWORD)) (drop (unat index) d) @
                 drop (length (take (unat (ucast sz :: DWORD)) (drop (unat index) d))) dest"
    and "\<not> ok \<Longrightarrow> dest' = dest"
    and "ok \<longleftrightarrow> served w (seek_and_read r index sz) \<and> 0 \<le> sint index"
proof -
  let ?bs = "take (unat (ucast sz :: DWORD)) (drop (unat index) d)"
  obtain f where f: "file_of w (mHandle r) = Some f" and data: "of_data f = d"
    and fs: "mFileSize r = of_nat (length d)" and len: "length d < 2 ^ 63"
    using att by (auto simp: attached_def split: option.splits)
  have op: "isopen r"
    using att by (rule attached_isopen)
  obtain sought w1 where seek: "SetFilePointerEx w (mHandle r) index = (sought, w1)"
    by (cases "SetFilePointerEx w (mHandle r) index")
  note sf = SetFilePointerEx_facts [OF seek f]
  have all: "later w w' \<and> attached w' r d \<and> (ok \<longrightarrow> dest' = ?bs @ drop (length ?bs) dest) \<and>
      (\<not> ok \<longrightarrow> dest' = dest) \<and>
      (ok \<longleftrightarrow> served w (seek_and_read r index sz) \<and> 0 \<le> sint index)"
  proof (cases sought)
    case False
    then have res: "ok = False" "dest' = dest" "w' = w1"
      using run seek op by (simp_all add: readnobuffer_def)
    have "later w w'" using res sf(1) by simp
    moreover have "attached w' r d"
      using res sf(4) False data fs len by (simp add: attached_def)
    moreover have "\<not> (served w (seek_and_read r index sz) \<and> 0 \<le> sint index)"
      using False sf(5) by (auto simp: seek_and_read_def)
    ultimately show ?thesis
      using res by simp
  next
    case True
    then have rd: "ReadFile w1 (mHandle r) dest (ucast sz) = (ok, dest', w')"
      using run seek op by (simp add: readnobuffer_def)
    have f1: "file_of w1 (mHandle r) = Some (f\<lparr>of_pos := unat index\<rparr>)"
      using sf(3) True by simp
    note rf = ReadFile_facts [OF rd f1]
    have "later w w'" using sf(1) rf(1) by (rule later_trans)
    moreover have "attached w' r d"
      using rf(3) data fs len by (auto simp: attached_def)
    moreover have "ok \<longrightarrow> dest' = ?bs @ drop (length ?bs) dest"
      using rf(4) data by simp
    moreover have "\<not> ok \<longrightarrow> dest' = dest" using rf(5) by simp
    moreover have "healthy w1 = healthy w" "trace w1 = trace w @ [Call_SetFilePointerEx (mHandle r) index]"
      using sf(1,2) by (simp_all add: later_def)
    then have "ok \<longleftrightarrow> served w (seek_and_read r index sz) \<and> 0 \<le> sint index"
      using rf(6) sf(5) True by (auto simp: seek_and_read_def)
    ultimately show ?thesis
      by blast
  qed
  show "later w w'" and "attached w' r d"
    and "ok \<Longrightarrow> dest' = ?bs @ drop (length ?bs) dest"
    and "\<not> ok \<Longrightarrow> dest' = dest"
    and "ok \<longleftrightarrow> served w (seek_and_read r index sz) \<and> 0 \<le> sint index"
    using all by blast+
qed

lemma in_range_facts:
  assumes "attached w r d" and "unat index + unat sz \<le> length d"
  shows "unat (mFileSize r) = length d" and "unat (index + sz) = unat index + unat sz"
    and "\<not> mFileSize r < index + sz" and "unat (mFileSize r - index) = length d - unat index"
    and "0 \<le> sint index" and "length d < 2 ^ 63"
proof -
  have fs: "mFileSize r = of_nat (length d)" and len: "length d < 2 ^ 63"
    using assms(1) by (auto simp: attached_def split: option.splits)
  have "(2 :: nat) ^ 63 < 2 ^ 64"
    by simp
  then have len64: "length d < 2 ^ 64"
    using len by linarith
  show n: "unat (mFileSize r) = length d"
    using fs len64 by (simp add: unat_of_nat_len)
  show s: "unat (index + sz) = unat index + unat sz"
    using assms(2) len64 by (intro unat_plus) linarith
  show "\<not> mFileSize r < index + sz"
    using n s assms(2) by (simp add: word_less_nat_alt)
  show "unat (mFileSize r - index) = length d - unat index"
    using n assms(2) by (simp add: unat_minus)
  show "0 \<le> sint index"
    using assms(2) len by (intro sint_nonneg) linarith
  show "length d < 2 ^ 63"
    by (rule len)
qed


lemma copy_out_slice:
  assumes "unat (index - mBufferIndex r) + unat sz \<le> length (mBuffer r)"
    and "unat sz \<le> length dest"
  shows "copy_out r dest index sz =
     Some (take (unat sz) (drop (unat (index - mBufferIndex r)) (mBuffer r)) @ drop (unat sz) dest)"
proof (cases "sz = 1")
  case True
  define k where "k = unat (index - mBufferIndex r)"
  obtain x xs where dest: "dest = x # xs"
    using assms(2) True by (cases dest) simp_all
  have k: "k < length (mBuffer r)"
    using assms(1) True by (simp add: k_def)
  then have "take 1 (drop k (mBuffer r)) = [mBuffer r ! k]"
    by (simp add: take_Suc_conv_app_nth)
  then show ?thesis
    using True k dest by (simp add: copy_out_def k_def [symmetric])
next
  case False
  then show ?thesis
    using assms by (simp add: copy_out_def Let_def)
qed

lemma window_slice:
  assumes "buf = take len (drop b d)" and "b \<le> i" and "i + s \<le> b + len"
  shows "take s (drop (i - b) buf) = take s (drop i d)"
proof -
  have "drop (i - b) buf = take (len - (i - b)) (drop i d)"
    using assms(1,2) by (simp add: drop_take)
  moreover have "s \<le> len - (i - b)"
    using assms(2,3) by linarith
  ultimately show ?thesis
    by (simp add: min_absorb1)
qed

lemma window_arith:
  assumes "window_ok r d" and "length d < 2 ^ 63"
  shows "unat (mBufferIndex r + of_nat (length (mBuffer r))) = unat (mBufferIndex r) + length (mBuffer r)"
proof -
  have "(2 :: nat) ^ 63 < 2 ^ 64"
    by simp
  then have small: "unat (mBufferIndex r) + length (mBuffer r) < 2 ^ 64"
    using assms by (simp add: window_ok_def)
  then have "unat (of_nat (length (mBuffer r)) :: uint64_t) = length (mBuffer r)"
    by (intro unat_of_nat_len) linarith
  then show ?thesis
    using small by (simp add: unat_plus)
qed


text \<open>
  A request inside the file, on a reader whose window is right. \<open>read\<close> returns; it
  returns true exactly when the calls it makes are served; and when neither the request
  nor the buffer size reaches \<open>2^32\<close> the bytes it delivers are the bytes of the file
  and the window is right again.
\<close>

lemma read_request:
  assumes att: "attached w r d" and win: "in_window r index sz \<Longrightarrow> window_ok r d"
    and rng: "unat index + unat sz \<le> length d" and dst: "unat sz \<le> length dest"
  shows "\<exists>ok dest' r' w'.
      read w r dest index sz = Some (ok, dest', r', w') \<and> later w w' \<and> attached w' r' d \<and>
      mBufferSize r' = mBufferSize r \<and> mHandle r' = mHandle r \<and> mFileSize r' = mFileSize r \<and>
      (ok \<longleftrightarrow> served w (read_calls r index sz)) \<and>
      (\<not> ok \<longrightarrow> dest' = dest) \<and>
      (ok \<longrightarrow> unat sz < 2 ^ 32 \<longrightarrow> unat (mBufferSize r) < 2 ^ 32 \<longrightarrow>
         dest' = take (unat sz) (drop (unat index) d) @ drop (unat sz) dest \<and>
         (r' = r \<or> window_ok r' d))"
proof -
  note ir = in_range_facts [OF att rng]
  have short: "\<not> length dest < unat sz"
    using dst by simp
  have full: "length (take (unat sz) (drop (unat index) d)) = unat sz"
    using rng by simp
  consider (direct) "mBufferSize r < sz"
    | (hit) "\<not> mBufferSize r < sz" "in_window r index sz"
    | (refill) "\<not> mBufferSize r < sz" "\<not> in_window r index sz"
    by blast
  then show ?thesis
  proof cases
    case direct
    obtain ok dest1 w1 where rn: "readnobuffer w r dest index sz = (ok, dest1, w1)"
      by (cases "readnobuffer w r dest index sz")
    note rf = readnobuffer_facts [OF rn att]
    have res: "read w r dest index sz = Some (ok, dest1, r, w1)"
      using short ir(3) direct rn by (simp add: read_def)
    have calls: "read_calls r index sz = seek_and_read r index sz"
      using ir(3) direct by (simp add: read_calls_def)
    have "ok \<longleftrightarrow> served w (read_calls r index sz)"
      using rf(5) ir(5) calls by simp
    moreover have "dest1 = take (unat sz) (drop (unat index) d) @ drop (unat sz) dest"
      if "ok" "unat sz < 2 ^ 32"
      using rf(3) [OF that(1)] full by (simp add: unat_ucast_small [OF that(2)])
    ultimately show ?thesis
      using res rf(1,2,4) by auto
  next
    case hit
    have lo: "unat (mBufferIndex r) \<le> unat index"
      and hi: "unat index + unat sz \<le> unat (mBufferIndex r) + length (mBuffer r)"
      using hit(2) ir(2) window_arith [OF win [OF hit(2)] ir(6)]
      by (simp_all add: in_window_def word_less_nat_alt)
    have k: "unat (index - mBufferIndex r) = unat index - unat (mBufferIndex r)"
      using lo by (rule unat_minus)
    have fits: "unat (index - mBufferIndex r) + unat sz \<le> length (mBuffer r)"
      using k lo hi by linarith
    have buf: "mBuffer r = take (length (mBuffer r)) (drop (unat (mBufferIndex r)) d)"
      using win [OF hit(2)] by (simp add: window_ok_def)
    have "copy_out r dest index sz =
        Some (take (unat sz) (drop (unat index) d) @ drop (unat sz) dest)"
      using copy_out_slice [OF fits dst] window_slice [OF buf lo hi] k by simp
    then have res: "read w r dest index sz =
        Some (True, take (unat sz) (drop (unat index) d) @ drop (unat sz) dest, r, w)"
      using short ir(3) hit by (simp add: read_def in_window_def)
    have calls: "read_calls r index sz = []"
      using ir(3) hit by (simp add: read_calls_def)
    show ?thesis
      using res calls att by auto
  next
    case refill
    define m where "m = min (mBufferSize r) (mFileSize r - index)"
    define buf0 where "buf0 = resize (mBuffer r) (unat m)"
    have um: "unat m = min (unat (mBufferSize r)) (length d - unat index)"
      using ir(4) by (simp add: m_def min_def word_le_nat_alt)
    have szm: "unat sz \<le> unat m"
      using um refill(1) rng by (simp add: word_less_nat_alt)
    have len0: "length buf0 = unat m"
      by (simp add: buf0_def resize_def)
    have wm: "(of_nat (length buf0) :: uint64_t) = m"
      by (simp add: len0)
    obtain ok buf w1 where rn: "readnobuffer w r buf0 index m = (ok, buf, w1)"
      by (cases "readnobuffer w r buf0 index m")
    note rf = readnobuffer_facts [OF rn att]
    have lenb: "length buf = unat m"
      using readnobuffer_length [OF rn] len0 by simp
    define r2 where "r2 = r\<lparr>mBufferIndex := index, mBuffer := buf\<rparr>"
    have step: "read w r dest index sz =
        (if \<not> ok then Some (False, dest, r2, w1)
         else (case copy_out r2 dest index sz of
                 None \<Rightarrow> None
               | Some dest1 \<Rightarrow> Some (True, dest1, r2, w1)))"
      using short ir(3) refill rn wm
      by (simp add: read_def in_window_def Let_def m_def [symmetric] buf0_def [symmetric] r2_def
          split: option.splits)
    have fits: "unat (index - mBufferIndex r2) + unat sz \<le> length (mBuffer r2)"
      using szm lenb by (simp add: r2_def)
    have out: "copy_out r2 dest index sz = Some (take (unat sz) buf @ drop (unat sz) dest)"
      using copy_out_slice [OF fits dst] by (simp add: r2_def)
    have res: "read w r dest index sz =
        Some (ok, if ok then take (unat sz) buf @ drop (unat sz) dest else dest, r2, w1)"
      using step out by simp
    have calls: "read_calls r index sz = seek_and_read r index m"
      using ir(3) refill by (simp add: read_calls_def m_def)
    have served: "ok \<longleftrightarrow> served w (read_calls r index sz)"
      using rf(5) ir(5) calls by simp
    have good: "take (unat sz) buf = take (unat sz) (drop (unat index) d) \<and> window_ok r2 d"
      if "ok" "unat (mBufferSize r) < 2 ^ 32"
    proof -
      have "unat m < 2 ^ 32"
        using um that(2) by simp
      then have "buf = take (unat m) (drop (unat index) d) @
          drop (length (take (unat m) (drop (unat index) d))) buf0"
        using rf(3) [OF that(1)] by (simp add: unat_ucast_small)
      moreover have "length (take (unat m) (drop (unat index) d)) = unat m"
        using um by simp
      ultimately have b: "buf = take (unat m) (drop (unat index) d)"
        using len0 by simp
      then have "take (unat sz) buf = take (unat sz) (drop (unat index) d)"
        using szm by (simp add: min_absorb1)
      moreover have "unat index + unat m \<le> length d"
        using um rng by linarith
      then have "window_ok r2 d"
        using b lenb by (simp add: window_ok_def r2_def)
      ultimately show ?thesis
        by simp
    qed
    have "attached w1 r2 d"
      using rf(2) by (simp add: r2_def)
    then show ?thesis
      using res rf(1) served good by (auto simp: r2_def)
  qed
qed

lemma read_in_range:
  assumes att: "attached w r d" and win: "window_ok r d"
    and rng: "unat index + unat sz \<le> length d" and dst: "unat sz \<le> length dest"
  shows "\<exists>ok dest' r' w'.
      read w r dest index sz = Some (ok, dest', r', w') \<and> later w w' \<and> attached w' r' d \<and>
      mBufferSize r' = mBufferSize r \<and> mHandle r' = mHandle r \<and> mFileSize r' = mFileSize r \<and>
      (ok \<longleftrightarrow> served w (read_calls r index sz)) \<and>
      (\<not> ok \<longrightarrow> dest' = dest) \<and>
      (ok \<longrightarrow> unat sz < 2 ^ 32 \<longrightarrow> unat (mBufferSize r) < 2 ^ 32 \<longrightarrow>
         dest' = take (unat sz) (drop (unat index) d) @ drop (unat sz) dest \<and> window_ok r' d)"
proof -
  obtain ok dest' r' w' where
    rd: "read w r dest index sz = Some (ok, dest', r', w')" "later w w'" "attached w' r' d"
      "mBufferSize r' = mBufferSize r" "mHandle r' = mHandle r" "mFileSize r' = mFileSize r"
      "ok \<longleftrightarrow> served w (read_calls r index sz)" "\<not> ok \<longrightarrow> dest' = dest"
    and good: "ok \<longrightarrow> unat sz < 2 ^ 32 \<longrightarrow> unat (mBufferSize r) < 2 ^ 32 \<longrightarrow>
         dest' = take (unat sz) (drop (unat index) d) @ drop (unat sz) dest \<and>
         (r' = r \<or> window_ok r' d)"
    using read_request [OF att win rng dst] by blast
  have "ok \<longrightarrow> unat sz < 2 ^ 32 \<longrightarrow> unat (mBufferSize r) < 2 ^ 32 \<longrightarrow>
         dest' = take (unat sz) (drop (unat index) d) @ drop (unat sz) dest \<and> window_ok r' d"
    using good win by auto
  then show ?thesis
    using rd by blast
qed

section \<open>After the constructor\<close>

lemma HandleFileReader_new_open:
  assumes "HandleFileReader_new w path = (r, w')" and "isopen r"
  shows "\<exists>d. files w path = Some d \<and> attached w' r d \<and> later w w' \<and>
           r = HandleFileReader_init\<lparr>mHandle := Handle (length (handles w)), mFileSize := of_nat (length d)\<rparr>"
proof -
  obtain h w1 where c: "CreateFileW w path = (h, w1)"
    by (cases "CreateFileW w path")
  have h: "h \<noteq> INVALID_HANDLE_VALUE"
    using assms c by (auto simp: HandleFileReader_new_def isopen_def HandleFileReader_init_def
        split: if_splits prod.splits option.splits)
  then obtain d where d: "files w path = Some d" and len: "length d < 2 ^ 63"
    and hk: "h = Handle (length (handles w))"
    and w1: "w1 = w\<lparr>trace := trace w @ [Call_CreateFileW path],
                    handles := handles w @ [Some \<lparr>of_data = d, of_pos = 0\<rparr>]\<rparr>"
    using c by (auto simp: CreateFileW_def attempt_def Let_def split: option.splits if_splits)
  have f1: "file_of w1 h = Some \<lparr>of_data = d, of_pos = 0\<rparr>"
    using hk w1 by simp
  obtain q w2 where g: "GetFileSizeEx w1 h = (q, w2)"
    by (cases "GetFileSizeEx w1 h")
  have q: "q = Some (of_nat (length d))" and w2: "w2 = w1\<lparr>trace := trace w1 @ [Call_GetFileSizeEx h]\<rparr>"
    using assms c h g f1
    by (auto simp: HandleFileReader_new_def isopen_def GetFileSizeEx_def attempt_def Let_def
        split: if_splits option.splits)
  have r: "r = HandleFileReader_init\<lparr>mHandle := h, mFileSize := of_nat (length d)\<rparr>" and w': "w' = w2"
    using assms(1) c h g q by (simp_all add: HandleFileReader_new_def)
  have "attached w' r d"
    using r w' w2 f1 len by (simp add: attached_def)
  moreover have "later w w'"
    using w' w2 w1 by (simp add: later_def)
  ultimately show ?thesis
    using d r hk by simp
qed

section \<open>Reads of length zero\<close>








section \<open>The scan, on the bytes\<close>

text \<open>
  The loop of \<open>parse\<close> once more, reading the bytes from a list instead of through the
  reader, with natural numbers for the offsets; \<open>offsets\<close> adds what \<open>parse\<close> appends
  after the loop.
\<close>

fun scan :: "byte list \<Rightarrow> nat \<Rightarrow> nat \<Rightarrow> nat \<Rightarrow> nat list \<Rightarrow> nat \<times> nat \<times> nat list" where
  "scan [] i curIndex curSize ls = (curIndex, curSize, ls)"
| "scan (ch # rest) i curIndex curSize ls =
     (if ch = CR then scan rest (i + 1) curIndex curSize ls
      else if ch = LF then scan rest (i + 1) (i + 1) 0 (ls @ [curIndex])
      else scan rest (i + 1) curIndex (curSize + 1) ls)"

definition offsets :: "byte list \<Rightarrow> nat list" where
  "offsets d =
     (case scan d 0 0 0 [] of
        (curIndex, curSize, ls) \<Rightarrow>
          (if curSize > 0 then ls @ [curIndex] else ls) @ [length d + 1])"

lemma readchar_in_range:
  assumes att: "attached w r d" and win: "window_ok r d" and i: "unat i < length d"
    and small: "unat (mBufferSize r) < 2 ^ 32"
  shows "\<exists>ok ch r' w'.
      readchar w r i c = Some (ok, ch, r', w') \<and> later w w' \<and> attached w' r' d \<and>
      mBufferSize r' = mBufferSize r \<and> mFileSize r' = mFileSize r \<and>
      (ok \<longleftrightarrow> served w (read_calls r i 1)) \<and>
      (ok \<longrightarrow> ch = d ! unat i \<and> window_ok r' d)"
proof -
  have rng: "unat i + unat (1 :: size_t) \<le> length d" and dst: "unat (1 :: size_t) \<le> length [c]"
    using i by simp_all
  obtain ok dest' r' w' where
    rd: "read w r [c] i 1 = Some (ok, dest', r', w')" and l: "later w w'" and a: "attached w' r' d"
    and b: "mBufferSize r' = mBufferSize r" and f: "mFileSize r' = mFileSize r"
    and s: "ok \<longleftrightarrow> served w (read_calls r i 1)"
    and g: "ok \<longrightarrow> unat (1 :: size_t) < 2 ^ 32 \<longrightarrow> unat (mBufferSize r) < 2 ^ 32 \<longrightarrow>
         dest' = take (unat (1 :: size_t)) (drop (unat i) d) @ drop (unat (1 :: size_t)) [c] \<and>
         window_ok r' d"
    using read_in_range [OF att win rng dst] by blast
  have "take 1 (drop (unat i) d) = [d ! unat i]"
    using i by (simp add: take_Suc_conv_app_nth)
  then have "ok \<longrightarrow> dest' = [d ! unat i] \<and> window_ok r' d"
    using g small by simp
  then show ?thesis
    using rd l a b f s by (auto simp: readchar_def)
qed


lemma parse_loop_scan:
  assumes "attached w r d" and "window_ok r d" and "unat (mBufferSize r) < 2 ^ 32"
    and "filesize = mFileSize r" and "unat i \<le> length d"
    and "unat curIndex \<le> unat i" and "unat curSize \<le> unat i"
    and "parse_loop w r filesize i curIndex curSize ls = Some (True, curIndex', curSize', ls', r', w')"
  shows "scan (drop (unat i) d) (unat i) (unat curIndex) (unat curSize) (map unat ls) =
           (unat curIndex', unat curSize', map unat ls') \<and>
         attached w' r' d \<and> window_ok r' d \<and> mBufferSize r' = mBufferSize r \<and> later w w'"
  using assms
proof (induction "length d - unat i" arbitrary: w r i curIndex curSize ls)
  case 0
  have n: "unat (mFileSize r) = length d"
    using in_range_facts(1) [OF "0.prems"(1), of 0 0] by simp
  have "\<not> i < filesize"
    using 0 n by (simp add: word_less_nat_alt)
  then have "Some (True, curIndex, curSize, ls, r, w) = Some (True, curIndex', curSize', ls', r', w')"
    using "0.prems"(8) by (simp add: parse_loop.simps)
  then show ?case
    using 0 by simp
next
  case (Suc k)
  have n: "unat (mFileSize r) = length d" and len: "length d < 2 ^ 63"
    using in_range_facts(1,6) [OF Suc.prems(1), of 0 0] by simp_all
  have i: "unat i < length d"
    using Suc.hyps(2) by linarith
  have lt: "i < filesize"
    using i n Suc.prems(4) by (simp add: word_less_nat_alt)
  have "(2 :: nat) ^ 63 < 2 ^ 64"
    by simp
  then have len64: "length d < 2 ^ 64"
    using len by linarith
  have i1: "unat (i + 1) = unat i + 1"
    using i len64 by (rule unat_succ)
  have c1: "unat (curSize + 1) = unat curSize + 1"
    using Suc.prems(7) i len64 by (intro unat_succ [of _ "length d"]) linarith+
  obtain ok ch r1 w1 where
    rc: "readchar w r i 0 = Some (ok, ch, r1, w1)" and l: "later w w1" and a: "attached w1 r1 d"
    and b: "mBufferSize r1 = mBufferSize r" and f: "mFileSize r1 = mFileSize r"
    and g: "ok \<longrightarrow> ch = d ! unat i \<and> window_ok r1 d"
    using readchar_in_range [OF Suc.prems(1,2) i Suc.prems(3), of 0] by blast
  have ok: "ok"
  proof (rule ccontr)
    assume "\<not> ok"
    then show False
      using Suc.prems(8) lt rc by (simp add: parse_loop.simps)
  qed
  then have ch: "ch = d ! unat i" and win1: "window_ok r1 d"
    using g by simp_all
  have dr: "drop (unat i) d = ch # drop (unat i + 1) d"
    using i ch by (simp add: Cons_nth_drop_Suc)
  have k: "k = length d - unat (i + 1)"
    using Suc.hyps(2) i1 by linarith
  have small1: "unat (mBufferSize r1) < 2 ^ 32"
    using b Suc.prems(3) by simp
  have fs1: "filesize = mFileSize r1"
    using f Suc.prems(4) by simp
  have ile: "unat (i + 1) \<le> length d"
    using i i1 by linarith
  consider (cr) "ch = CR" | (lf) "ch \<noteq> CR" "ch = LF" | (other) "ch \<noteq> CR" "ch \<noteq> LF"
    by blast
  then show ?case
  proof cases
    case cr
    have next_run: "parse_loop w1 r1 filesize (i + 1) curIndex curSize ls =
        Some (True, curIndex', curSize', ls', r', w')"
      using Suc.prems(8) lt rc ok cr by (simp add: parse_loop.simps)
    have "unat curIndex \<le> unat (i + 1)" "unat curSize \<le> unat (i + 1)"
      using Suc.prems(6,7) i1 by linarith+
    from Suc.hyps(1) [OF k a win1 small1 fs1 ile this next_run]
    show ?thesis
      using dr cr i1 b l by (auto intro: later_trans)
  next
    case lf
    have next_run: "parse_loop w1 r1 filesize (i + 1) (i + 1) 0 (ls @ [curIndex]) =
        Some (True, curIndex', curSize', ls', r', w')"
      using Suc.prems(8) lt rc ok lf by (simp add: parse_loop.simps)
    have "unat (i + 1) \<le> unat (i + 1)" "unat (0 :: size_t) \<le> unat (i + 1)"
      by simp_all
    from Suc.hyps(1) [OF k a win1 small1 fs1 ile this next_run]
    show ?thesis
      using dr lf i1 b l by (auto intro: later_trans)
  next
    case other
    have next_run: "parse_loop w1 r1 filesize (i + 1) curIndex (curSize + 1) ls =
        Some (True, curIndex', curSize', ls', r', w')"
      using Suc.prems(8) lt rc ok other by (simp add: parse_loop.simps)
    have "unat curIndex \<le> unat (i + 1)" "unat (curSize + 1) \<le> unat (i + 1)"
      using Suc.prems(6,7) i1 c1 by linarith+
    from Suc.hyps(1) [OF k a win1 small1 fs1 ile this next_run]
    show ?thesis
      using dr other i1 c1 b l by (auto intro: later_trans)
  qed
qed


text \<open>
  \<open>indexed w fl d\<close>: what a successful \<open>parse\<close> leaves behind. The offset table is
  \<open>offsets d\<close>, the reader is attached to the file, its window is right and its buffer
  size is what \<open>parse\<close> set: ten megabytes, or the size of the file when that is less.
\<close>

definition indexed :: "world \<Rightarrow> FileLines \<Rightarrow> byte list \<Rightarrow> bool" where
  "indexed w fl d =
     (case mReader fl of
        None \<Rightarrow> False
      | Some r \<Rightarrow>
          attached w r d \<and> window_ok r d \<and> mBufferSize r = min 10485760 (of_nat (length d)) \<and>
          map unat (mLines fl) = offsets d)"

lemma ten_megabytes: "(10 * 1024 * 1024 :: size_t) = 10485760"
  by simp

lemma buffer_of_parse_small:
  "unat (min (10485760 :: size_t) x) < 2 ^ 32"
proof -
  have "unat (min (10485760 :: size_t) x) \<le> unat (10485760 :: size_t)"
    unfolding word_le_nat_alt [symmetric] by (rule min.cobounded1)
  then show ?thesis
    by simp
qed

lemma parse_offsets:
  assumes att: "attached w r d" and fresh: "mBuffer r = []" "mBufferIndex r = 0"
    and fl: "mReader fl = Some r" "mLines fl = []"
    and run: "parse w fl = Some (True, fl', w')"
  shows "indexed w' fl' d \<and> later w w'"
proof -
  define r2 where "r2 = setbuffersize (setbufferdirection r Right) (10 * 1024 * 1024)"
  have fs: "mFileSize r = of_nat (length d)" and len: "length d < 2 ^ 63"
    using att by (auto simp: attached_def split: option.splits)
  have "(2 :: nat) ^ 63 < 2 ^ 64"
    by simp
  then have len64: "length d + 1 < 2 ^ 64"
    using len by linarith
  have att2: "attached w r2 d"
    using att by (simp add: r2_def setbuffersize_def setbufferdirection_def)
  have win2: "window_ok r2 d"
    using fresh by (simp add: r2_def setbuffersize_def setbufferdirection_def window_ok_def)
  have bs2: "mBufferSize r2 = min 10485760 (of_nat (length d))"
    using fs by (simp add: r2_def setbuffersize_def setbufferdirection_def)
  have small2: "unat (mBufferSize r2) < 2 ^ 32"
    unfolding bs2 by (rule buffer_of_parse_small)
  have fs2: "mFileSize r = mFileSize r2"
    by (simp add: r2_def setbuffersize_def setbufferdirection_def)
  have op: "isopen r"
    using att by (rule attached_isopen)
  obtain curIndex curSize ls r3 where
    loop: "parse_loop w r2 (mFileSize r) 0 0 0 [] = Some (True, curIndex, curSize, ls, r3, w')"
    and fl': "fl' = fl\<lparr>mLines := (if curSize > 0 then ls @ [curIndex] else ls) @ [mFileSize r + 1],
                      mReader := Some r3\<rparr>"
    using run fl op
    by (auto simp: parse_def size_of_def Let_def r2_def split: option.splits if_splits)
  have scan: "scan d 0 0 0 [] = (unat curIndex, unat curSize, map unat ls) \<and>
      attached w' r3 d \<and> window_ok r3 d \<and> mBufferSize r3 = mBufferSize r2 \<and> later w w'"
    using parse_loop_scan [OF att2 win2 small2 fs2 _ _ _ loop] by simp
  have sentinel: "unat (mFileSize r + 1) = length d + 1"
    using fs len64 by (simp add: unat_plus unat_of_nat_len)
  have pos: "0 < curSize \<longleftrightarrow> 0 < unat curSize"
    by (simp add: word_less_nat_alt)
  have "map unat (mLines fl') = offsets d"
    using scan sentinel pos by (simp add: fl' offsets_def)
  then show ?thesis
    using scan bs2 by (simp add: indexed_def fl')
qed

lemma load_lines_indexed:
  assumes "load_lines w path = Some (True, fl, w')"
  shows "\<exists>d. files w path = Some d \<and> indexed w' fl d \<and> later w w'"
proof -
  obtain r w1 where new: "HandleFileReader_new w path = (r, w1)"
    by (cases "HandleFileReader_new w path")
  have op: "isopen r"
    using assms new
    by (auto simp: load_lines_def FileLines_open_def FileLines_isopen_def FileLines_init_def
        split: if_splits)
  obtain d where d: "files w path = Some d" and att: "attached w1 r d" and l: "later w w1"
    and r: "r = HandleFileReader_init\<lparr>mHandle := Handle (length (handles w)), mFileSize := of_nat (length d)\<rparr>"
    using HandleFileReader_new_open [OF new op] by blast
  have run: "parse w1 (FileLines_init\<lparr>mReader := Some r\<rparr>) = Some (True, fl, w')"
    using assms new op
    by (simp add: load_lines_def FileLines_open_def FileLines_isopen_def FileLines_init_def)
  have "indexed w' fl d \<and> later w1 w'"
    by (rule parse_offsets [OF att _ _ _ _ run]) (simp_all add: r HandleFileReader_init_def FileLines_init_def)
  then show ?thesis
    using d l by (auto intro: later_trans)
qed

section \<open>The number of lines\<close>

text \<open>
  The count in the words of the specification: the line feeds of the file, and one more
  when what follows the last line feed (the whole file when there is none) still has a
  byte after the carriage returns are dropped.
\<close>

definition final_line :: "byte list \<Rightarrow> byte list" where
  "final_line d = rev (takeWhile (\<lambda>c. c \<noteq> LF) (rev d))"

definition expected_lines :: "byte list \<Rightarrow> nat" where
  "expected_lines d =
     count_list d LF + (if filter (\<lambda>c. c \<noteq> CR) (final_line d) \<noteq> [] then 1 else 0)"

lemma final_line_no_LF: "LF \<notin> set xs \<Longrightarrow> final_line xs = xs"
proof -
  assume "LF \<notin> set xs"
  then have "\<forall>x\<in>set (rev xs). x \<noteq> LF"
    by auto
  then have "takeWhile (\<lambda>c. c \<noteq> LF) (rev xs) = rev xs"
    by simp
  then show ?thesis
    by (simp add: final_line_def del: takeWhile_eq_all_conv)
qed

lemma final_line_Cons:
  "final_line (c # xs) =
     (if LF \<in> set xs then final_line xs else if c = LF then xs else c # xs)"
proof (cases "LF \<in> set xs")
  case True
  then show ?thesis
    by (auto simp: final_line_def takeWhile_append)
next
  case False
  then have "\<forall>x\<in>set (rev xs). x \<noteq> LF"
    by auto
  then have "takeWhile (\<lambda>c. c \<noteq> LF) (rev xs) = rev xs"
    by simp
  then show ?thesis
    using False by (simp add: final_line_def takeWhile_append del: takeWhile_eq_all_conv)
qed

lemma LF_not_CR [simp]: "LF \<noteq> CR" "CR \<noteq> LF"
  by (simp_all add: LF_def CR_def)

lemma scan_count:
  "scan xs i curIndex curSize ls = (curIndex', curSize', ls') \<Longrightarrow>
   length ls' = length ls + count_list xs LF \<and>
   curSize' = (if LF \<in> set xs then 0 else curSize) + length (filter (\<lambda>c. c \<noteq> CR) (final_line xs))"
proof (induction xs arbitrary: i curIndex curSize ls)
  case Nil
  then show ?case by (simp add: final_line_def)
next
  case (Cons ch rest)
  consider (cr) "ch = CR" | (lf) "ch \<noteq> CR" "ch = LF" | (other) "ch \<noteq> CR" "ch \<noteq> LF"
    by blast
  then show ?case
  proof cases
    case cr
    then have "scan rest (i + 1) curIndex curSize ls = (curIndex', curSize', ls')"
      using Cons.prems by simp
    from Cons.IH [OF this] show ?thesis
      using cr by (simp add: final_line_Cons final_line_no_LF)
  next
    case lf
    then have "scan rest (i + 1) (i + 1) 0 (ls @ [curIndex]) = (curIndex', curSize', ls')"
      using Cons.prems by simp
    from Cons.IH [OF this] show ?thesis
      using lf by (simp add: final_line_Cons final_line_no_LF)
  next
    case other
    then have "scan rest (i + 1) curIndex (curSize + 1) ls = (curIndex', curSize', ls')"
      using Cons.prems by simp
    from Cons.IH [OF this] show ?thesis
      using other by (simp add: final_line_Cons final_line_no_LF)
  qed
qed

lemma length_offsets: "length (offsets d) = expected_lines d + 1"
proof -
  obtain curIndex curSize ls where s: "scan d 0 0 0 [] = (curIndex, curSize, ls)"
    by (cases "scan d 0 0 0 []")
  from scan_count [OF s] show ?thesis
    using s by (simp add: offsets_def expected_lines_def)
qed

lemma expected_lines_le: "expected_lines d \<le> length d + 1"
proof -
  have "count_list d LF \<le> length d"
    by (rule count_le_length)
  then show ?thesis
    by (simp add: expected_lines_def)
qed

lemma indexed_size:
  assumes "indexed w fl d"
  shows "unat (FileLines_size fl) = expected_lines d"
proof -
  obtain r where att: "attached w r d" and os: "map unat (mLines fl) = offsets d"
    using assms by (auto simp: indexed_def split: option.splits)
  have len: "length d < 2 ^ 63"
    using att by (auto simp: attached_def split: option.splits)
  have "(2 :: nat) ^ 63 < 2 ^ 64"
    by simp
  then have small: "expected_lines d < 2 ^ 64"
    using expected_lines_le [of d] len by linarith
  have "length (mLines fl) = expected_lines d + 1"
    using os length_offsets [of d] by (metis length_map)
  then have "FileLines_size fl = of_nat (expected_lines d)"
    by (simp add: FileLines_size_def)
  then show ?thesis
    using small by (simp add: unat_of_nat_len)
qed

text \<open>
  C3. After a successful open and parse, \<open>lineCount()\<close> is the number of line feeds of
  the file, plus one when the bytes behind the last line feed are not all carriage
  returns; for the empty file it is 0.
\<close>

theorem line_count:
  assumes "load_lines w path = Some (True, fl, w')" and "files w path = Some d"
  shows "unat (FileLines_size fl) = expected_lines d \<and> (d = [] \<longrightarrow> FileLines_size fl = 0)"
proof -
  have ix: "indexed w' fl d"
    using load_lines_indexed [OF assms(1)] assms(2) by auto
  have n: "unat (FileLines_size fl) = expected_lines d"
    using ix by (rule indexed_size)
  have e: "expected_lines [] = 0"
    by (simp add: expected_lines_def final_line_def)
  have "FileLines_size fl = 0" if "d = []"
  proof -
    have "unat (FileLines_size fl) = 0"
      using n e that by simp
    then show ?thesis
      by (simp add: unsigned_eq_0_iff)
  qed
  then show ?thesis
    using n by simp
qed


text \<open>The file \<open>abc CR LF def LF ghi\<close> of the specification's first scenario.\<close>

definition three_lines :: "byte list" where
  "three_lines = [97, 98, 99, CR, LF, 100, 101, 102, LF, 103, 104, 105]"

lemma load_three_lines:
  "\<exists>fl w'. load_lines (boot (one_file three_lines) sound) ''f'' = Some (True, fl, w')"
  by (simp add: three_lines_def os_defs reader_defs lines_defs Let_def parse_loop.simps)

theorem line_count_witness:
  "\<exists>fl w'. load_lines (boot (one_file three_lines) sound) ''f'' = Some (True, fl, w') \<and>
     files (boot (one_file three_lines) sound) ''f'' = Some three_lines \<and>
     unat (FileLines_size fl) = expected_lines three_lines \<and> expected_lines three_lines = 3"
proof -
  obtain fl w' where run: "load_lines (boot (one_file three_lines) sound) ''f'' = Some (True, fl, w')"
    using load_three_lines by blast
  have there: "files (boot (one_file three_lines) sound) ''f'' = Some three_lines"
    by (simp add: boot_def one_file_def)
  have "expected_lines three_lines = 3"
    by (simp add: expected_lines_def final_line_def three_lines_def CR_def LF_def)
  with line_count [OF run there] show ?thesis
    using run there by simp
qed

section \<open>The offset table\<close>





section \<open>Fetching a line\<close>













section \<open>When the scan succeeds\<close>








section \<open>A line longer than the buffer\<close>










section \<open>All lines, joined\<close>



















section \<open>Buffered and direct reads\<close>
















text \<open>
  A failed refill leaves the window moved and not filled. In a world where only the
  fourth call fails: the first read of the first byte of \<open>ab\<close> fails, and the same read,
  made again, is served from that window: true, with a zero byte, where \<open>readnobuffer\<close>
  delivers the letter.
\<close>

definition one_failure_at :: "nat \<Rightarrow> syscall list \<Rightarrow> bool" where
  "one_failure_at k t = (length t \<noteq> k)"

lemma failed_refill_leaves_window:
  "(case HandleFileReader_new (boot (one_file [97, 98]) (one_failure_at 4)) ''f'' of
      (r0, w0) \<Rightarrow>
        (case run (r0, w0) [Req_setbuffersize 2, Req_read [7] 0 1] of
           (reps, None) \<Rightarrow> False
         | (reps, Some (r, w1)) \<Rightarrow>
             reps = [Rep_done, Rep_read False [7]] \<and>
             map_option (\<lambda>(ok, dest, r', w'). (ok, dest)) (read w1 r [7] 0 1) = Some (True, [0]) \<and>
             (case readnobuffer w1 r [7] 0 1 of (ok, dest, w') \<Rightarrow> ok \<and> dest = [97])))"
  by (auto simp add: os_defs reader_defs Let_def one_failure_at_def replicate_two)

end
